theory Spec2Isabelle
  imports Main
begin

section \<open>Text\<close>

text \<open>
  A Python \<open>str\<close> is modelled as a \<open>string\<close>: the list of its code points, each in
  the range 0..255 that \<open>char\<close> covers. On that range \<open>str.lower()\<close> works character
  by character: it adds 32 to the code points 65..90 (A..Z) and 192..222 except 215
  (the upper-case letters of Latin-1; 215 is the multiplication sign), and leaves every
  other code point alone.
\<close>

definition lower_char :: "char \<Rightarrow> char" where
  "lower_char c =
     (let n = (of_char c :: nat) in
      if (65 \<le> n \<and> n \<le> 90) \<or> (192 \<le> n \<and> n \<le> 222 \<and> n \<noteq> 215)
      then char_of (n + 32) else c)"

definition lower :: "string \<Rightarrow> string" where
  "lower s = map lower_char s"

text \<open>
  The word characters of \<open>re\<close> on a \<open>str\<close> pattern (\<open>\w\<close>): the underscore and
  every code point that \<open>str.isalnum()\<close> accepts. Below 256 these are the digits, the
  ASCII letters, and of Latin-1 the letters, the ordinal indicators (170, 186), the
  micro sign (181), the superscript digits (178, 179, 185) and the fractions (188..190).
\<close>

definition is_word :: "char \<Rightarrow> bool" where
  "is_word c =
     (let n = (of_char c :: nat) in
      (48 \<le> n \<and> n \<le> 57) \<or> (65 \<le> n \<and> n \<le> 90) \<or> n = 95 \<or> (97 \<le> n \<and> n \<le> 122) \<or>
      n = 170 \<or> n = 178 \<or> n = 179 \<or> n = 181 \<or> n = 185 \<or> n = 186 \<or>
      (188 \<le> n \<and> n \<le> 190) \<or> (192 \<le> n \<and> n \<le> 214) \<or> (216 \<le> n \<and> n \<le> 246) \<or>
      248 \<le> n)"

section \<open>Python values\<close>

text \<open>
  The values that \<open>json.loads\<close> returns and that a column of the data frame holds.
  \<open>'n\<close> is the type of the numbers (Python's \<open>int\<close> and \<open>float\<close>). A \<open>dict\<close> is the list
  of its items in insertion order.
\<close>

datatype 'n pyval =
    PNone
  | PBool bool
  | PNum 'n
  | PStr string
  | PList "'n pyval list"
  | PDict "(string \<times> 'n pyval) list"

text \<open>
  \<open>repr(s)\<close> of a \<open>str\<close>: the string between single quotes, or between double quotes
  when it holds a single quote and no double quote; inside, the quote character and
  the backslash are escaped with a backslash, tab, newline and carriage return are
  written \<^verbatim>\<open>\t\<close>, \<^verbatim>\<open>\n\<close>, \<^verbatim>\<open>\r\<close>, and every other code point that is
  not printable is written \<^verbatim>\<open>\xhh\<close>.
\<close>

definition backslash :: char where
  "backslash = CHR 0x5C"

definition hex_digits :: string where
  "hex_digits = ''0123456789abcdef''"

definition printable :: "char \<Rightarrow> bool" where
  "printable c =
     (let n = (of_char c :: nat) in \<not> (n < 32 \<or> (127 \<le> n \<and> n \<le> 160) \<or> n = 173))"

definition repr_char :: "char \<Rightarrow> char \<Rightarrow> string" where
  "repr_char quote c =
     (if c = quote \<or> c = backslash then [backslash, c]
      else if c = CHR 0x09 then [backslash, CHR ''t'']
      else if c = CHR 0x0A then [backslash, CHR ''n'']
      else if c = CHR 0x0D then [backslash, CHR ''r'']
      else if printable c then [c]
      else [backslash, CHR ''x'',
            hex_digits ! (of_char c div 16), hex_digits ! (of_char c mod 16)])"

definition repr_str :: "string \<Rightarrow> string" where
  "repr_str s =
     (let quote = (if CHR 0x27 \<in> set s \<and> CHR 0x22 \<notin> set s then CHR 0x22 else CHR 0x27)
      in [quote] @ concat (map (repr_char quote) s) @ [quote])"

text \<open>\<open>sep.join(xs)\<close>.\<close>

fun join :: "string \<Rightarrow> string list \<Rightarrow> string" where
  "join sep [] = []"
| "join sep [x] = x"
| "join sep (x # y # ys) = x @ sep @ join sep (y # ys)"

text \<open>
  \<open>repr(x)\<close> and \<open>str(x)\<close>. They differ on a \<open>str\<close> only, which \<open>str\<close> returns as it
  is. How a number is printed (\<open>5\<close>, \<open>1.5\<close>, \<open>nan\<close>) is the parameter \<open>str_num\<close>.
\<close>

fun repr :: "('n \<Rightarrow> string) \<Rightarrow> 'n pyval \<Rightarrow> string" where
  "repr str_num PNone = ''None''"
| "repr str_num (PBool b) = (if b then ''True'' else ''False'')"
| "repr str_num (PNum n) = str_num n"
| "repr str_num (PStr s) = repr_str s"
| "repr str_num (PList xs) = ''['' @ join '', '' (map (repr str_num) xs) @ '']''"
| "repr str_num (PDict kvs) =
     ''{'' @ join '', '' (map (\<lambda>kv. repr_str (fst kv) @ '': '' @ repr str_num (snd kv)) kvs) @ ''}''"

fun py_str :: "('n \<Rightarrow> string) \<Rightarrow> 'n pyval \<Rightarrow> string" where
  "py_str str_num (PStr s) = s"
| "py_str str_num v = repr str_num v"

text \<open>\<open>str(i)\<close> of an \<open>int\<close>: its decimal digits, after a minus sign when it is negative.\<close>

fun str_nat :: "nat \<Rightarrow> string" where
  "str_nat n =
     (if n < 10 then [hex_digits ! n] else str_nat (n div 10) @ [hex_digits ! (n mod 10)])"

declare str_nat.simps [simp del]

definition str_int :: "int \<Rightarrow> string" where
  "str_int i = (if i < 0 then CHR ''-'' # str_nat (nat (- i)) else str_nat (nat i))"

text \<open>
  \<open>for x in v\<close>: a list gives its elements, a \<open>str\<close> its characters (each a \<open>str\<close> of
  length one), a \<open>dict\<close> its keys. \<open>None\<close>, booleans and numbers are not iterable
  (\<open>TypeError\<close>): the result is \<open>None\<close>.
\<close>

fun py_iter :: "'n pyval \<Rightarrow> 'n pyval list option" where
  "py_iter (PList xs) = Some xs"
| "py_iter (PStr s) = Some (map (\<lambda>c. PStr [c]) s)"
| "py_iter (PDict kvs) = Some (map (\<lambda>kv. PStr (fst kv)) kvs)"
| "py_iter v = None"

section \<open>The regular expressions of \<open>classify\<close>\<close>

text \<open>
  \<open>re.escape\<close> (Python 3.7 and later) puts a backslash before each of the characters
  \<^verbatim>\<open>()[]{}?*+-|^$\.&~#\<close>, the space, and the tab, newline, carriage return, vertical tab
  and form feed.
\<close>

definition special_chars :: string where
  "special_chars =
     ''()[]{}?*+-|^$'' @ [backslash] @ ''.&~# '' @
     [CHR 0x09, CHR 0x0A, CHR 0x0D, CHR 0x0B, CHR 0x0C]"

fun re_escape :: "string \<Rightarrow> string" where
  "re_escape [] = []"
| "re_escape (c # cs) =
     (if c \<in> set special_chars then backslash # c # re_escape cs else c # re_escape cs)"

text \<open>\<^verbatim>\<open>_word = r"\b{}\b"\<close> and \<open>_word.format(x)\<close>.\<close>

definition word_format :: "string \<Rightarrow> string" where
  "word_format x = [backslash, CHR ''b''] @ x @ [backslash, CHR ''b'']"

text \<open>
  The pattern parser of \<open>re\<close>, on the fragment of the pattern language without
  operators: a pattern of this fragment is a sequence of literal characters, dots and
  \<^verbatim>\<open>\b\<close> assertions.
  \<^item> A backslash followed by \<open>b\<close> is the word-boundary assertion; a backslash followed
    by any character that is not an ASCII letter or digit is that character, literally;
    a backslash at the end of the pattern is an error (\<open>bad escape\<close>).
  \<^item> A dot matches any character except a newline.
  \<^item> A character that is not one of \<^verbatim>\<open>.\[{()*+?^$|\<close> is a literal.
  Any other pattern (a backslash before another letter or a digit, or one of
  \<^verbatim>\<open>[{()*+?^$|\<close> unescaped) is outside the fragment, and its parse is
  \<open>Inl Outside_fragment\<close>.
\<close>

datatype item = Literal char | Any_char | Word_boundary

datatype re_failure = Bad_escape | Outside_fragment

definition ascii_alnum :: "char \<Rightarrow> bool" where
  "ascii_alnum c =
     (let n = (of_char c :: nat) in
      (48 \<le> n \<and> n \<le> 57) \<or> (65 \<le> n \<and> n \<le> 90) \<or> (97 \<le> n \<and> n \<le> 122))"

definition operator_chars :: string where
  "operator_chars = ''[{()*+?^$|''"

definition then_items :: "item \<Rightarrow> re_failure + item list \<Rightarrow> re_failure + item list" where
  "then_items i r = (case r of Inl e \<Rightarrow> Inl e | Inr its \<Rightarrow> Inr (i # its))"

fun sre_parse :: "string \<Rightarrow> re_failure + item list" where
  "sre_parse [] = Inr []"
| "sre_parse (c # cs) =
     (if c = backslash then
        (case cs of
           [] \<Rightarrow> Inl Bad_escape
         | e # rest \<Rightarrow>
             if e = CHR ''b'' then then_items Word_boundary (sre_parse rest)
             else if ascii_alnum e then Inl Outside_fragment
             else then_items (Literal e) (sre_parse rest))
      else if c = CHR ''.'' then then_items Any_char (sre_parse cs)
      else if c \<in> set operator_chars then Inl Outside_fragment
      else then_items (Literal c) (sre_parse cs))"

text \<open>
  \<^verbatim>\<open>\b\<close> at position \<open>i\<close> of the text: exactly one of the character before and the
  character at \<open>i\<close> is a word character, where a missing character (before the start,
  after the end) counts as a non-word character.
\<close>

definition at_boundary :: "string \<Rightarrow> nat \<Rightarrow> bool" where
  "at_boundary t i =
     ((0 < i \<and> i \<le> length t \<and> is_word (t ! (i - 1))) \<noteq> (i < length t \<and> is_word (t ! i)))"

text \<open>The items of a pattern, matched one after the other from position \<open>i\<close> of the text.\<close>

fun match_items :: "item list \<Rightarrow> string \<Rightarrow> nat \<Rightarrow> bool" where
  "match_items [] t i = True"
| "match_items (Literal c # its) t i =
     (i < length t \<and> t ! i = c \<and> match_items its t (Suc i))"
| "match_items (Any_char # its) t i =
     (i < length t \<and> t ! i \<noteq> CHR 0x0A \<and> match_items its t (Suc i))"
| "match_items (Word_boundary # its) t i =
     (at_boundary t i \<and> match_items its t i)"

text \<open>
  \<open>re.search(pattern, text)\<close>, as the truth value of its result: a match object when
  the pattern matches from some position \<open>0..len(text)\<close>, else \<open>None\<close>.
\<close>

definition re_search :: "string \<Rightarrow> string \<Rightarrow> re_failure + bool" where
  "re_search pattern t =
     (case sre_parse pattern of
        Inl e \<Rightarrow> Inl e
      | Inr its \<Rightarrow> Inr (list_ex (match_items its t) [0..<Suc (length t)]))"

section \<open>\<open>get_default_dictionaries\<close>\<close>

text \<open>
  A dictionary (a \<open>Dict\<close> from \<open>str\<close> to \<open>Set[str]\<close>) is the list of its items in
  insertion order; a set of phrases is the list of its elements, without duplicates, in
  the order in which the set is iterated.
\<close>

type_synonym dictionaries = "(string \<times> string list) list"

definition get_default_dictionaries :: dictionaries where
  "get_default_dictionaries =
     [(''urgency_marketing'',
       [''limited'', ''limited time'', ''limited run'', ''limited edition'', ''order now'',
        ''last chance'', ''hurry'', ''while supplies last'', ''before they're gone'',
        ''selling out'', ''selling fast'', ''act now'', ''don't wait'', ''today only'',
        ''expires soon'', ''final hours'', ''almost gone'']),
      (''exclusive_marketing'',
       [''exclusive'', ''exclusively'', ''exclusive offer'', ''exclusive deal'',
        ''members only'', ''vip'', ''special access'', ''invitation only'',
        ''premium'', ''privileged'', ''limited access'', ''select customers'',
        ''insider'', ''private sale'', ''early access''])]"

section \<open>\<open>classify\<close>\<close>

text \<open>The result of \<open>classify\<close> is a \<open>dict\<close>: the list of its items, as for a dictionary.\<close>

type_synonym flagset = "(string \<times> bool) list"

text \<open>
  \<^verbatim>\<open>any(re.search(_word.format(re.escape(p)), text) for p in phrases)\<close>: the phrases are
  tried in turn, the first match ends the search, and an exception of \<open>re\<close> ends it too.
\<close>

fun any_search :: "string \<Rightarrow> string list \<Rightarrow> re_failure + bool" where
  "any_search t [] = Inr False"
| "any_search t (p # phrases) =
     (case re_search (word_format (re_escape p)) t of
        Inl e \<Rightarrow> Inl e
      | Inr True \<Rightarrow> Inr True
      | Inr False \<Rightarrow> any_search t phrases)"

text \<open>The dict comprehension over \<open>dictionaries.items()\<close>.\<close>

fun classify_items :: "string \<Rightarrow> dictionaries \<Rightarrow> re_failure + flagset" where
  "classify_items t [] = Inr []"
| "classify_items t ((cat, phrases) # rest) =
     (case any_search t phrases of
        Inl e \<Rightarrow> Inl e
      | Inr b \<Rightarrow>
          (case classify_items t rest of
             Inl e \<Rightarrow> Inl e
           | Inr fs \<Rightarrow> Inr ((cat, b) # fs)))"

definition classify ::
  "('n \<Rightarrow> string) \<Rightarrow> 'n pyval \<Rightarrow> dictionaries \<Rightarrow> re_failure + flagset" where
  "classify str_num text dictionaries =
     classify_items (lower (py_str str_num text)) dictionaries"

section \<open>\<open>parse_dictionaries\<close>\<close>

datatype error = Invalid_JSON | Unreadable_CSV | Column_not_found | Uncaught re_failure

text \<open>
  \<^verbatim>\<open>{str(x).lower() for x in v}\<close>; \<open>None\<close> when \<open>v\<close> is not iterable. The order in
  which Python iterates the resulting set is not specified; here each phrase stands
  where it occurs last in \<open>v\<close>. The flags do not depend on the order of the phrases
  (lemma \<open>any_search_set\<close>).
\<close>

definition phrase_set :: "('n \<Rightarrow> string) \<Rightarrow> 'n pyval \<Rightarrow> string list option" where
  "phrase_set str_num v =
     (case py_iter v of
        None \<Rightarrow> None
      | Some xs \<Rightarrow> Some (remdups (map (\<lambda>x. lower (py_str str_num x)) xs)))"

text \<open>The dict comprehension over \<open>raw.items()\<close>; \<open>None\<close> when some value is not iterable.\<close>

fun parse_items :: "('n \<Rightarrow> string) \<Rightarrow> (string \<times> 'n pyval) list \<Rightarrow> dictionaries option" where
  "parse_items str_num [] = Some []"
| "parse_items str_num ((k, v) # rest) =
     (case phrase_set str_num v of
        None \<Rightarrow> None
      | Some phrases \<Rightarrow>
          (case parse_items str_num rest of
             None \<Rightarrow> None
           | Some d \<Rightarrow> Some ((k, phrases) # d)))"

text \<open>
  \<open>parse_dictionaries\<close>. Its argument is what \<open>json.loads(json_str)\<close> does: \<open>None\<close> when
  it raises, \<open>Some raw\<close> when it returns \<open>raw\<close>. Only a \<open>dict\<close> has \<open>items()\<close>; on any
  other value \<open>raw.items()\<close> raises \<open>AttributeError\<close>. Every exception is caught: the
  message ``Invalid JSON'' is shown and \<open>st.stop()\<close> ends the script.
\<close>

fun parse_dictionaries :: "('n \<Rightarrow> string) \<Rightarrow> 'n pyval option \<Rightarrow> error + dictionaries" where
  "parse_dictionaries str_num (Some (PDict kvs)) =
     (case parse_items str_num kvs of
        None \<Rightarrow> Inl Invalid_JSON
      | Some d \<Rightarrow> Inr d)"
| "parse_dictionaries str_num loaded = Inl Invalid_JSON"

section \<open>The script\<close>

text \<open>
  The progress bar is the list of the calls of \<open>progress\<close> it has received:
  \<open>progress(idx / total_rows)\<close> is \<open>Ratio idx total_rows\<close>, \<open>progress(0)\<close> and
  \<open>progress(100)\<close> are \<open>Percent 0\<close> and \<open>Percent 100\<close>.
\<close>

datatype progress_call = Ratio nat nat | Percent nat

record loop_state =
  flags :: "flagset list"
  my_bar :: "progress_call list"

text \<open>The loop over \<open>enumerate(df[statement_col])\<close>.\<close>

fun flags_loop ::
  "('n \<Rightarrow> string) \<Rightarrow> dictionaries \<Rightarrow> nat \<Rightarrow> (nat \<times> 'n pyval) list \<Rightarrow> loop_state
     \<Rightarrow> re_failure + loop_state" where
  "flags_loop str_num user_dictionaries total_rows [] s = Inr s"
| "flags_loop str_num user_dictionaries total_rows ((idx, statement) # rest) s =
     (case classify str_num statement user_dictionaries of
        Inl e \<Rightarrow> Inl e
      | Inr fs \<Rightarrow>
          flags_loop str_num user_dictionaries total_rows rest
            (s\<lparr>flags := flags s @ [fs],
               my_bar :=
                 (if 1000 \<le> total_rows \<and> idx mod max (total_rows div 100) 1 = 0
                  then my_bar s @ [Ratio idx total_rows] else my_bar s)\<rparr>))"

text \<open>
  Lines 115 to 123: \<open>flags = []\<close>, the loop over the column, and \<open>progress(100)\<close>.
  \<open>bar\<close> is the state of the progress bar before the loop.
\<close>

definition classify_rows ::
  "('n \<Rightarrow> string) \<Rightarrow> dictionaries \<Rightarrow> 'n pyval list \<Rightarrow> progress_call list
     \<Rightarrow> re_failure + loop_state" where
  "classify_rows str_num user_dictionaries column bar =
     (case flags_loop str_num user_dictionaries (length column) (enumerate 0 column)
             \<lparr>flags = [], my_bar = bar\<rparr> of
        Inl e \<Rightarrow> Inl e
      | Inr s \<Rightarrow> Inr (s\<lparr>my_bar := my_bar s @ [Percent 100]\<rparr>))"

text \<open>
  The script from line 98 on. \<open>loaded\<close> is what \<open>json.loads\<close> does on the text of the
  dictionary editor. \<open>uploaded\<close> is \<open>None\<close> when no file is uploaded, \<open>Some None\<close> when
  \<open>pd.read_csv\<close> raises, \<open>Some (Some df)\<close> when it returns the data frame \<open>df\<close>, the list
  of its columns. The result is the list \<open>flags\<close> (\<open>None\<close> when no file is uploaded),
  or the error that stopped the script.
\<close>

type_synonym 'n dataframe = "(string \<times> 'n pyval list) list"

definition run ::
  "('n \<Rightarrow> string) \<Rightarrow> 'n pyval option \<Rightarrow> 'n dataframe option option \<Rightarrow> string
     \<Rightarrow> error + flagset list option" where
  "run str_num loaded uploaded statement_col =
     (case parse_dictionaries str_num loaded of
        Inl e \<Rightarrow> Inl e
      | Inr user_dictionaries \<Rightarrow>
          (case uploaded of
             None \<Rightarrow> Inr None
           | Some None \<Rightarrow> Inl Unreadable_CSV
           | Some (Some df) \<Rightarrow>
               (case map_of df statement_col of
                  None \<Rightarrow> Inl Column_not_found
                | Some column \<Rightarrow>
                    (case classify_rows str_num user_dictionaries column [Percent 0] of
                       Inl e \<Rightarrow> Inl (Uncaught e)
                     | Inr s \<Rightarrow> Inr (Some (flags s))))))"

section \<open>Notions of the specification\<close>

text \<open>A phrase matches a text, as \<open>classify\<close> tests it.\<close>

definition phrase_matches :: "string \<Rightarrow> string \<Rightarrow> bool" where
  "phrase_matches t p = (re_search (word_format (re_escape p)) t = Inr True)"

text \<open>The flag of a category in the result of \<open>classify\<close>.\<close>

definition lookup_flag :: "re_failure + flagset \<Rightarrow> string \<Rightarrow> bool option" where
  "lookup_flag res cat = (case res of Inl e \<Rightarrow> None | Inr fs \<Rightarrow> map_of fs cat)"

text \<open>The flags of a text: a category is flagged when one of its phrases matches.\<close>

definition match_flags :: "string \<Rightarrow> dictionaries \<Rightarrow> flagset" where
  "match_flags t d = map (\<lambda>(cat, ps). (cat, list_ex (phrase_matches t) ps)) d"

text \<open>
  A phrase taken as literal text between two word boundaries: it occurs at some
  position of the text, character for character, with a word boundary before and
  after it.
\<close>

definition literal_search :: "string \<Rightarrow> string \<Rightarrow> bool" where
  "literal_search p t =
     list_ex (\<lambda>i. at_boundary t i \<and> take (length p) (drop i t) = p \<and>
                   at_boundary t (i + length p)) [0..<Suc (length t)]"

text \<open>
  The flags of a text when every phrase is taken as literal text between two word
  boundaries.
\<close>

definition literal_flags :: "string \<Rightarrow> dictionaries \<Rightarrow> flagset" where
  "literal_flags t d = map (\<lambda>(cat, ps). (cat, list_ex (\<lambda>p. literal_search p t) ps)) d"

text \<open>
  A whole-word match, in the words of the specification: the phrase occurs at position
  \<open>i\<close> of the text, no word character stands just before its first character, and no
  word character stands just after its last one.
\<close>

definition whole_word_at :: "string \<Rightarrow> string \<Rightarrow> nat \<Rightarrow> bool" where
  "whole_word_at p t i =
     (take (length p) (drop i t) = p \<and>
      \<not> (0 < i \<and> is_word (t ! (i - 1))) \<and>
      \<not> (i + length p < length t \<and> is_word (t ! (i + length p))))"

definition whole_word_match :: "string \<Rightarrow> string \<Rightarrow> bool" where
  "whole_word_match p t = list_ex (whole_word_at p t) [0..<Suc (length t)]"

text \<open>A phrase that begins and ends with a word character.\<close>

definition word_edged :: "string \<Rightarrow> bool" where
  "word_edged p = (p \<noteq> [] \<and> is_word (hd p) \<and> is_word (last p))"

definition all_word_edged :: "dictionaries \<Rightarrow> bool" where
  "all_word_edged d = list_all (\<lambda>entry. list_all word_edged (snd entry)) d"

text \<open>The flags of a text when a match is a whole-word match.\<close>

definition whole_word_flags :: "string \<Rightarrow> dictionaries \<Rightarrow> flagset" where
  "whole_word_flags t d = map (\<lambda>(cat, ps). (cat, list_ex (\<lambda>p. whole_word_match p t) ps)) d"





text \<open>
  A trimmed string: one that \<open>str.strip()\<close> leaves alone, with no whitespace at its
  start or its end. The whitespace below 256 is 9..13, 28..32, 133 and 160.
\<close>

definition is_space :: "char \<Rightarrow> bool" where
  "is_space c =
     (let n = (of_char c :: nat) in (9 \<le> n \<and> n \<le> 13) \<or> (28 \<le> n \<and> n \<le> 32) \<or> n = 133 \<or> n = 160)"

definition trimmed :: "string \<Rightarrow> bool" where
  "trimmed p = (p = [] \<or> \<not> (is_space (hd p) \<or> is_space (last p)))"

text \<open>
  A well-shaped input of the validator: JSON text whose value is an object that maps
  each name to a list of strings.
\<close>

fun is_str :: "'n pyval \<Rightarrow> bool" where
  "is_str (PStr s) = True"
| "is_str v = False"

fun is_str_list :: "'n pyval \<Rightarrow> bool" where
  "is_str_list (PList xs) = list_all is_str xs"
| "is_str_list v = False"

fun well_shaped :: "'n pyval option \<Rightarrow> bool" where
  "well_shaped (Some (PDict kvs)) = list_all (\<lambda>kv. is_str_list (snd kv)) kvs"
| "well_shaped loaded = False"

text \<open>The strings of a list of strings.\<close>

fun the_str :: "'n pyval \<Rightarrow> string" where
  "the_str (PStr s) = s"
| "the_str v = []"

fun strings_of :: "'n pyval \<Rightarrow> string list" where
  "strings_of (PList xs) = map the_str xs"
| "strings_of v = []"

text \<open>
  The inputs that \<open>parse_dictionaries\<close> accepts: JSON text whose value is an object
  that maps each name to a list, a string or an object.
\<close>

fun iterable :: "'n pyval \<Rightarrow> bool" where
  "iterable (PList xs) = True"
| "iterable (PStr s) = True"
| "iterable (PDict kvs) = True"
| "iterable v = False"

fun accepted :: "'n pyval option \<Rightarrow> bool" where
  "accepted (Some (PDict kvs)) = list_all (\<lambda>kv. iterable (snd kv)) kvs"
| "accepted loaded = False"

text \<open>
  Two dictionaries with the same categories, in the same order, and the same set of
  phrases in each category: they differ only in the order in which each set of
  phrases is iterated.
\<close>

definition same_phrase_sets :: "dictionaries \<Rightarrow> dictionaries \<Rightarrow> bool" where
  "same_phrase_sets d d' =
     list_all2 (\<lambda>entry entry'. fst entry = fst entry' \<and> set (snd entry) = set (snd entry')) d d'"

section \<open>Lemmas\<close>

lemma lower_char_idem: "lower_char (lower_char c) = lower_char c"
  by (auto simp: lower_char_def Let_def)

lemma lower_idem: "lower (lower s) = lower s"
  by (simp add: lower_def lower_char_idem)

lemma special_chars_unfold:
  "c \<in> set special_chars \<longleftrightarrow> of_char c \<in> {9, 10, 11, 12, 13, 32, 35, 36, 38, 40, 41, 42, 43, 45, 46, 63, 91, 92, 93, 94, 123, 124, 125, 126 :: nat}"
  by (cases c) (auto simp: special_chars_def backslash_def)

lemma special_not_alnum: "c \<in> set special_chars \<Longrightarrow> \<not> ascii_alnum c"
  by (auto simp: special_chars_def backslash_def ascii_alnum_def)

lemma special_not_b: "c \<in> set special_chars \<Longrightarrow> c \<noteq> CHR ''b''"
  by (auto simp: special_chars_def backslash_def)

lemma plain_not_operator:
  "c \<notin> set special_chars \<Longrightarrow> c \<noteq> backslash \<and> c \<noteq> CHR ''.'' \<and> c \<notin> set operator_chars"
  by (auto simp: special_chars_def backslash_def operator_chars_def)

lemma sre_parse_escape:
  "sre_parse (re_escape p @ r) =
     (case sre_parse r of Inl e \<Rightarrow> Inl e | Inr its \<Rightarrow> Inr (map Literal p @ its))"
proof (induction p)
  case Nil
  show ?case by (simp split: sum.split)
next
  case (Cons c cs)
  show ?case
  proof (cases "c \<in> set special_chars")
    case True
    then show ?thesis
      using special_not_alnum [OF True] special_not_b [OF True] Cons.IH
      by (simp add: then_items_def split: sum.split)
  next
    case False
    then show ?thesis
      using plain_not_operator [OF False] Cons.IH
      by (simp add: then_items_def split: sum.split)
  qed
qed

lemma sre_parse_word_format:
  "sre_parse (word_format (re_escape p)) = Inr (Word_boundary # map Literal p @ [Word_boundary])"
proof -
  have b: "sre_parse [backslash, CHR ''b''] = Inr [Word_boundary]"
    by (simp add: then_items_def)
  have "sre_parse (word_format (re_escape p)) =
          then_items Word_boundary (sre_parse (re_escape p @ [backslash, CHR ''b'']))"
    by (simp add: word_format_def)
  also have "\<dots> = Inr (Word_boundary # map Literal p @ [Word_boundary])"
    unfolding sre_parse_escape b by (simp add: then_items_def)
  finally show ?thesis .
qed

lemma match_literals:
  "match_items (map Literal p @ its) t i =
     (take (length p) (drop i t) = p \<and> match_items its t (i + length p))"
proof (induction p arbitrary: i)
  case Nil
  show ?case by simp
next
  case (Cons c cs)
  show ?case
  proof (cases "i < length t")
    case True
    then have "drop i t = t ! i # drop (Suc i) t"
      by (simp add: Cons_nth_drop_Suc)
    then show ?thesis using True Cons.IH [of "Suc i"] by auto
  next
    case False
    then show ?thesis by simp
  qed
qed

lemma re_search_word:
  "re_search (word_format (re_escape p)) t =
     Inr (list_ex (\<lambda>i. at_boundary t i \<and> take (length p) (drop i t) = p \<and>
                        at_boundary t (i + length p)) [0..<Suc (length t)])"
proof -
  have m: "match_items (Word_boundary # map Literal p @ [Word_boundary]) t =
          (\<lambda>i. at_boundary t i \<and> take (length p) (drop i t) = p \<and> at_boundary t (i + length p))"
    by (rule ext) (simp add: match_literals)
  show ?thesis
    by (simp only: re_search_def sre_parse_word_format m sum.case)
qed

lemma any_search_total: "any_search t ps = Inr (list_ex (phrase_matches t) ps)"
proof (induction ps)
  case Nil
  show ?case by simp
next
  case (Cons p ps)
  obtain b where b: "re_search (word_format (re_escape p)) t = Inr b"
    using re_search_word by blast
  show ?case
    by (cases b) (simp_all add: b Cons.IH phrase_matches_def)
qed

lemma classify_items_total:
  "classify_items t d = Inr (map (\<lambda>(cat, ps). (cat, list_ex (phrase_matches t) ps)) d)"
  by (induction d) (auto simp: any_search_total)

lemma classify_total:
  "classify so r d =
     Inr (map (\<lambda>(cat, ps). (cat, list_ex (phrase_matches (lower (py_str so r))) ps)) d)"
  by (simp add: classify_def classify_items_total)

lemma occurrence_edges:
  assumes occ: "take (length p) (drop i t) = p" and ne: "p \<noteq> []"
  shows "i < length t" and "t ! i = hd p" and "i + length p \<le> length t"
    and "t ! (i + length p - 1) = last p"
proof -
  have len: "length p = min (length p) (length t - i)"
    using arg_cong [OF occ, of length] by simp
  from ne have pos: "0 < length p" by simp
  from len pos show l1: "i < length t" by linarith
  from len show l2: "i + length p \<le> length t" using l1 by linarith
  have nth: "p ! k = t ! (i + k)" if "k < length p" for k
  proof -
    have "p ! k = take (length p) (drop i t) ! k" using occ by simp
    also have "\<dots> = t ! (i + k)" using that l2 by simp
    finally show ?thesis .
  qed
  show "t ! i = hd p" using nth [of 0] pos ne by (simp add: hd_conv_nth)
  have "last p = p ! (length p - 1)" using ne by (simp add: last_conv_nth)
  also have "\<dots> = t ! (i + (length p - 1))" by (rule nth) (use pos in simp)
  also have "i + (length p - 1) = i + length p - 1" using pos by linarith
  finally show "t ! (i + length p - 1) = last p" by simp
qed

lemma word_edged_match:
  assumes ne: "p \<noteq> []" and h: "is_word (hd p)" and l: "is_word (last p)"
  shows "phrase_matches t p = whole_word_match p t"
proof -
  have "(at_boundary t i \<and> take (length p) (drop i t) = p \<and> at_boundary t (i + length p)) =
          whole_word_at p t i" for i
  proof (cases "take (length p) (drop i t) = p")
    case True
    note e = occurrence_edges [OF True ne]
    have a: "at_boundary t i = (\<not> (0 < i \<and> is_word (t ! (i - 1))))"
      using e(1,2) h by (auto simp: at_boundary_def)
    have b: "at_boundary t (i + length p) =
               (\<not> (i + length p < length t \<and> is_word (t ! (i + length p))))"
      using e(3,4) l ne by (auto simp: at_boundary_def)
    show ?thesis using True a b by (simp add: whole_word_at_def)
  next
    case False
    then show ?thesis by (simp add: whole_word_at_def)
  qed
  then have "(\<lambda>i. at_boundary t i \<and> take (length p) (drop i t) = p \<and>
                 at_boundary t (i + length p)) = whole_word_at p t"
    by (rule ext)
  then show ?thesis
    by (simp only: phrase_matches_def re_search_word whole_word_match_def sum.inject eq_True)
qed



lemma no_match_in_empty_text: "\<not> phrase_matches [] p"
  by (simp add: phrase_matches_def re_search_word at_boundary_def)

lemma py_iter_None: "(py_iter v = None) = (\<not> iterable v)"
  by (cases v) simp_all

lemma phrase_set_None: "(phrase_set sn v = None) = (\<not> iterable v)"
  by (simp add: phrase_set_def py_iter_None [symmetric] split: option.split)

lemma parse_items_None:
  "(parse_items sn kvs = None) = (\<not> list_all (\<lambda>kv. iterable (snd kv)) kvs)"
  by (induction kvs) (auto simp: phrase_set_None split: option.splits)

lemma parse_items_Some:
  "parse_items sn kvs = Some d \<Longrightarrow>
     list_all2 (\<lambda>kv e. fst e = fst kv \<and> phrase_set sn (snd kv) = Some (snd e)) kvs d"
  by (induction kvs arbitrary: d) (auto split: option.splits)

lemma phrase_set_str_list:
  "is_str_list v \<Longrightarrow> phrase_set sn v = Some (remdups (map lower (strings_of v)))"
proof (cases v)
  case (PList xs)
  assume "is_str_list v"
  with PList have "list_all is_str xs" by simp
  then have h: "map (\<lambda>x. lower (py_str sn x)) xs = map lower (map the_str xs)"
    by (induction xs) (auto elim: is_str.elims)
  show ?thesis
    by (simp only: PList phrase_set_def py_iter.simps option.case strings_of.simps h)
qed simp_all

lemma str_list_iterable: "is_str_list v \<Longrightarrow> iterable v"
  by (cases v) simp_all

lemma flags_loop_total:
  "\<exists>bar. flags_loop sn d total_rows rows s =
     Inr \<lparr>flags = flags s @ map (\<lambda>r. map (\<lambda>(cat, ps). (cat, list_ex (phrase_matches (lower (py_str sn r))) ps)) d) (map snd rows),
          my_bar = bar\<rparr>"
proof (induction rows arbitrary: s)
  case Nil
  show ?case by (cases s) simp
next
  case (Cons ir rows)
  obtain idx statement where ir: "ir = (idx, statement)" by (cases ir)
  show ?case
    using Cons.IH [of "s\<lparr>flags := flags s @ [map (\<lambda>(cat, ps). (cat, list_ex (phrase_matches (lower (py_str sn statement))) ps)) d],
               my_bar := (if 1000 \<le> total_rows \<and> idx mod max (total_rows div 100) 1 = 0
                  then my_bar s @ [Ratio idx total_rows] else my_bar s)\<rparr>"]
    by (simp add: ir classify_total)
qed

lemma classify_rows_total:
  "\<exists>bar'. classify_rows sn d column bar =
     Inr \<lparr>flags = map (\<lambda>r. map (\<lambda>(cat, ps). (cat, list_ex (phrase_matches (lower (py_str sn r))) ps)) d) column,
          my_bar = bar'\<rparr>"
proof -
  obtain b where "flags_loop sn d (length column) (enumerate 0 column) \<lparr>flags = [], my_bar = bar\<rparr> =
     Inr \<lparr>flags = flags \<lparr>flags = [], my_bar = bar\<rparr> @ map (\<lambda>r. map (\<lambda>(cat, ps). (cat, list_ex (phrase_matches (lower (py_str sn r))) ps)) d) (map snd (enumerate 0 column)),
          my_bar = b\<rparr>"
    using flags_loop_total by blast
  then show ?thesis
    by (simp add: classify_rows_def)
qed

lemma lookup_flag_classify:
  "lookup_flag (classify sn r d) cat =
     map_option (list_ex (phrase_matches (lower (py_str sn r)))) (map_of d cat)"
  by (simp add: lookup_flag_def classify_total map_of_map)

lemma any_search_set: "set ps = set ps' \<Longrightarrow> any_search t ps = any_search t ps'"
  by (simp add: any_search_total list_ex_iff)

lemma unescaped_dot_is_an_operator:
  "re_search (word_format ''a.b'') ''axb'' = Inr True \<and>
   re_search (word_format (re_escape ''a.b'')) ''axb'' = Inr False \<and>
   re_search (word_format (re_escape ''a.b'')) ''a.b'' = Inr True \<and>
   re_search (word_format ''c++'') ''c++'' = Inl Outside_fragment \<and>
   re_search (word_format (re_escape ''c++'')) ''c++ x'' = Inr False \<and>
   re_search (word_format (re_escape ''c++'')) ''c++x'' = Inr True"
  by code_simp

lemma classify_literal:
  "classify sn r d = Inr (literal_flags (lower (py_str sn r)) d)"
proof -
  have "phrase_matches t = (\<lambda>p. literal_search p t)" for t
    by (rule ext) (simp add: phrase_matches_def re_search_word literal_search_def)
  then show ?thesis
    by (simp add: classify_total literal_flags_def)
qed

lemma same_phrase_sets_flags:
  "same_phrase_sets d d' \<Longrightarrow>
     map (\<lambda>(cat, ps). (cat, list_ex P ps)) d = map (\<lambda>(cat, ps). (cat, list_ex P ps)) d'"
  unfolding same_phrase_sets_def
  by (induction d d' rule: list_all2_induct) (auto simp: list_ex_iff)

section \<open>Whole-word matching\<close>

lemma vipster_default:
  "classify_items (lower ''invite the vipster crew'') get_default_dictionaries =
     Inr [(''urgency_marketing'', False), (''exclusive_marketing'', False)]"
  by code_simp

lemma vip_event_default:
  "classify_items (lower ''this is a vip event'') get_default_dictionaries =
     Inr [(''urgency_marketing'', False), (''exclusive_marketing'', True)]"
  by code_simp

lemma vipster_single:
  "classify_items (lower ''invite the vipster crew'') [(''exclusive_marketing'', [''vip''])] =
     Inr [(''exclusive_marketing'', False)]"
  by code_simp

lemma vip_event_single:
  "classify_items (lower ''this is a vip event'') [(''exclusive_marketing'', [''vip''])] =
     Inr [(''exclusive_marketing'', True)]"
  by code_simp

lemma whole_word_flags_eq:
  assumes "all_word_edged d"
  shows "match_flags t d = whole_word_flags t d"
proof -
  have "list_ex (phrase_matches t) ps = list_ex (\<lambda>p. whole_word_match p t) ps"
    if "list_all word_edged ps" for ps
    using that by (induction ps) (auto simp: word_edged_def word_edged_match)
  with assms show ?thesis
    unfolding all_word_edged_def match_flags_def whole_word_flags_def
    by (induction d) auto
qed

text \<open>
  Against claim C1 as it is stated: the phrase \<open>!sale\<close> matches in \<open>big!sale\<close>, where
  its first character stands right after the word character \<open>g\<close>. A phrase that begins
  with a character that is not a word character needs a word character before it.
\<close>

theorem whole_word_counterexample:
  "classify str_int (PStr ''big!sale'') [(''exclusive_marketing'', [''!sale''])] =
     Inr [(''exclusive_marketing'', True)] \<and>
   \<not> whole_word_match ''!sale'' (lower ''big!sale'')"
  by code_simp

text \<open>
  Claim C1, amended. With the phrase \<open>vip\<close> in \<open>exclusive_marketing\<close>, the flag is
  false for ``invite the vipster crew'' and true for ``this is a vip event''. When
  every phrase of the dictionary begins and ends with a word character, a category is
  flagged exactly when one of its phrases occurs in the lower-cased text with no word
  character just before its first character and none just after its last.
\<close>

theorem whole_word_boundary:
  "classify sn (PStr ''invite the vipster crew'') [(''exclusive_marketing'', [''vip''])] =
     Inr [(''exclusive_marketing'', False)] \<and>
   classify sn (PStr ''this is a vip event'') [(''exclusive_marketing'', [''vip''])] =
     Inr [(''exclusive_marketing'', True)] \<and>
   classify sn (PStr ''invite the vipster crew'') get_default_dictionaries =
     Inr [(''urgency_marketing'', False), (''exclusive_marketing'', False)] \<and>
   classify sn (PStr ''this is a vip event'') get_default_dictionaries =
     Inr [(''urgency_marketing'', False), (''exclusive_marketing'', True)] \<and>
   (all_word_edged d \<longrightarrow>
      classify sn r d = Inr (whole_word_flags (lower (py_str sn r)) d))"
proof -
  have "classify sn r d = Inr (whole_word_flags (lower (py_str sn r)) d)" if "all_word_edged d"
    using whole_word_flags_eq [OF that] by (simp add: classify_total match_flags_def)
  moreover have "classify sn (PStr ''invite the vipster crew'') [(''exclusive_marketing'', [''vip''])] =
     Inr [(''exclusive_marketing'', False)]"
    unfolding classify_def py_str.simps by (rule vipster_single)
  moreover have "classify sn (PStr ''this is a vip event'') [(''exclusive_marketing'', [''vip''])] =
     Inr [(''exclusive_marketing'', True)]"
    unfolding classify_def py_str.simps by (rule vip_event_single)
  moreover have "classify sn (PStr ''invite the vipster crew'') get_default_dictionaries =
     Inr [(''urgency_marketing'', False), (''exclusive_marketing'', False)]"
    unfolding classify_def py_str.simps by (rule vipster_default)
  moreover have "classify sn (PStr ''this is a vip event'') get_default_dictionaries =
     Inr [(''urgency_marketing'', False), (''exclusive_marketing'', True)]"
    unfolding classify_def py_str.simps by (rule vip_event_default)
  ultimately show ?thesis by blast
qed

theorem whole_word_boundary_witness:
  "all_word_edged get_default_dictionaries \<and>
   classify str_int (PStr ''Invite the VIPSTER crew'') get_default_dictionaries =
     Inr (whole_word_flags (lower (py_str str_int (PStr ''Invite the VIPSTER crew'')))
            get_default_dictionaries) \<and>
   whole_word_flags ''invite the vipster crew'' get_default_dictionaries =
     [(''urgency_marketing'', False), (''exclusive_marketing'', False)]"
proof -
  have h: "all_word_edged get_default_dictionaries" by code_simp
  have f: "whole_word_flags ''invite the vipster crew'' get_default_dictionaries =
     [(''urgency_marketing'', False), (''exclusive_marketing'', False)]" by code_simp
  show ?thesis
    using h f whole_word_boundary [of str_int get_default_dictionaries "PStr ''Invite the VIPSTER crew''"]
    by simp
qed

section \<open>The end-to-end scenario\<close>

lemma scenario_texts:
  "classify_items (lower ''Limited Time Offer!'')
     [(''urgency_marketing'', [''limited time'', ''hurry'']),
      (''exclusive_marketing'', [''vip'', ''exclusive''])] =
     Inr [(''urgency_marketing'', True), (''exclusive_marketing'', False)]"
  "classify_items (lower ''Join our VIP club'')
     [(''urgency_marketing'', [''limited time'', ''hurry'']),
      (''exclusive_marketing'', [''vip'', ''exclusive''])] =
     Inr [(''urgency_marketing'', False), (''exclusive_marketing'', True)]"
  "classify_items (lower ''Nothing special here'')
     [(''urgency_marketing'', [''limited time'', ''hurry'']),
      (''exclusive_marketing'', [''vip'', ''exclusive''])] =
     Inr [(''urgency_marketing'', False), (''exclusive_marketing'', False)]"
  by code_simp+

lemma scenario_dictionary:
  "parse_dictionaries sn
     (Some (PDict [(''urgency_marketing'', PList [PStr ''limited time'', PStr ''hurry'']),
                   (''exclusive_marketing'', PList [PStr ''vip'', PStr ''exclusive''])])) =
     Inr [(''urgency_marketing'', [''limited time'', ''hurry'']),
          (''exclusive_marketing'', [''vip'', ''exclusive''])]"
  by (simp add: phrase_set_def lower_def lower_char_def)

lemma classify_rows_aligned:
  "\<exists>s. classify_rows sn d column bar = Inr s \<and>
       list_all2 (\<lambda>r fs. classify sn r d = Inr fs) column (flags s)"
proof -
  obtain bar' where
    "classify_rows sn d column bar =
       Inr \<lparr>flags = map (\<lambda>r. map (\<lambda>(cat, ps). (cat, list_ex (phrase_matches (lower (py_str sn r))) ps)) d) column,
            my_bar = bar'\<rparr>"
    using classify_rows_total by blast
  then show ?thesis
    by (simp add: list_all2_map2 classify_total list_all2_same)
qed

text \<open>
  Claim C2. The dictionary of the scenario, normalized by \<open>parse_dictionaries\<close>, and its
  three records give the three flag sets of the scenario, in the order of the records.
  In general the loop returns one flag set for each record, at the position of the
  record.
\<close>

theorem end_to_end_scenario:
  "run sn
     (Some (PDict [(''urgency_marketing'', PList [PStr ''limited time'', PStr ''hurry'']),
                   (''exclusive_marketing'', PList [PStr ''vip'', PStr ''exclusive''])]))
     (Some (Some [(''Statement'',
                   [PStr ''Limited Time Offer!'', PStr ''Join our VIP club'',
                    PStr ''Nothing special here''])]))
     ''Statement'' =
     Inr (Some [ [(''urgency_marketing'', True), (''exclusive_marketing'', False)],
                [(''urgency_marketing'', False), (''exclusive_marketing'', True)],
                [(''urgency_marketing'', False), (''exclusive_marketing'', False)] ]) \<and>
   (\<exists>s. classify_rows sn d column bar = Inr s \<and>
        list_all2 (\<lambda>r fs. classify sn r d = Inr fs) column (flags s))"
proof -
  have "run sn
     (Some (PDict [(''urgency_marketing'', PList [PStr ''limited time'', PStr ''hurry'']),
                   (''exclusive_marketing'', PList [PStr ''vip'', PStr ''exclusive''])]))
     (Some (Some [(''Statement'',
                   [PStr ''Limited Time Offer!'', PStr ''Join our VIP club'',
                    PStr ''Nothing special here''])]))
     ''Statement'' =
     Inr (Some [ [(''urgency_marketing'', True), (''exclusive_marketing'', False)],
                [(''urgency_marketing'', False), (''exclusive_marketing'', True)],
                [(''urgency_marketing'', False), (''exclusive_marketing'', False)] ])"
    unfolding run_def scenario_dictionary
    by (simp add: classify_rows_def enumerate_eq_zip upt_rec classify_def scenario_texts
          del: classify_items.simps)
  with classify_rows_aligned show ?thesis by blast
qed

section \<open>Key completeness\<close>

text \<open>
  Claim C3. \<open>classify\<close> returns a flag set whose keys are the category names of the
  dictionary, in the same order: every category is there, and no other key.
\<close>

theorem key_completeness:
  "\<exists>fs. classify sn r d = Inr fs \<and> map fst fs = map fst d \<and>
        fst ` set fs = fst ` set d \<and> dom (map_of fs) = dom (map_of d)"
proof -
  let ?fs = "map (\<lambda>(cat, ps). (cat, list_ex (phrase_matches (lower (py_str sn r))) ps)) d"
  have k: "map fst ?fs = map fst d" by (induction d) auto
  then have "set (map fst ?fs) = set (map fst d)" by simp
  then have s: "fst ` set ?fs = fst ` set d" by (simp only: set_map)
  then have "dom (map_of ?fs) = dom (map_of d)" by (simp only: dom_map_of_conv_image_fst)
  with k s classify_total [of sn r d] show ?thesis by blast
qed

section \<open>Special characters in a phrase\<close>

lemma special_character_matches:
  "phrase_matches (lower ''get 50% off today'') ''50% off''"
  "\<not> phrase_matches (lower ''get 50 percent off'') ''50% off''"
  "phrase_matches (lower ''version a.b is out'') ''a.b''"
  "\<not> phrase_matches (lower ''axb'') ''a.b''"
  "phrase_matches (lower ''a+b'') ''a+b''"
  "\<not> phrase_matches (lower ''aab'') ''a+b''"
  "\<not> phrase_matches (lower ''learn c++ now'') ''c++''"
  "\<not> phrase_matches (lower ''learn c++ now'') ''(new)''"
  "\<not> phrase_matches (lower ''learn c++ now'') ''[x]''"
  "\<not> phrase_matches (lower ''learn c++ now'') ''a|b''"
  "\<not> phrase_matches (lower ''learn c++ now'') ''^$''"
  unfolding phrase_matches_def by code_simp+

lemma special_character_texts:
  "classify sn (PStr ''get 50% off today'') [(cat, [''50% off''])] = Inr [(cat, True)]"
  "classify sn (PStr ''get 50 percent off'') [(cat, [''50% off''])] = Inr [(cat, False)]"
  "classify sn (PStr ''version a.b is out'') [(cat, [''a.b''])] = Inr [(cat, True)]"
  "classify sn (PStr ''axb'') [(cat, [''a.b''])] = Inr [(cat, False)]"
  "classify sn (PStr ''a+b'') [(cat, [''a+b''])] = Inr [(cat, True)]"
  "classify sn (PStr ''aab'') [(cat, [''a+b''])] = Inr [(cat, False)]"
  "classify sn (PStr ''learn c++ now'') [(cat, [''c++'', ''(new)'', ''[x]'', ''a|b'', ''^$''])] =
     Inr [(cat, False)]"
  by (simp_all only: classify_total py_str.simps list.map prod.case list_ex_Nil_iff list_ex_Cons_iff
        special_character_matches simp_thms)

text \<open>
  Claim C4. For every record and every dictionary, \<open>classify\<close> returns a flag set (no
  phrase makes it raise), and a category is flagged exactly when one of its phrases
  occurs in the lower-cased text as literal text, character for character, between
  two word boundaries: no character of a phrase is read as an operator of the pattern
  language. So the phrase ``50% off'' flags ``get 50% off today'' and not ``get 50
  percent off''; the phrase ``a.b'' flags ``version a.b is out'' and not ``axb''; the
  phrase ``a+b'' flags ``a+b'' and not ``aab''; and phrases such as ``c++'' or
  ``(new)'' give a flag, not an error. The pattern built for a phrase is parsed into
  a word boundary, the characters of the phrase as literals, and a word boundary.
\<close>

theorem literal_special_characters:
  "classify sn r d = Inr (literal_flags (lower (py_str sn r)) d) \<and>
   classify sn (PStr ''get 50% off today'') [(cat, [''50% off''])] = Inr [(cat, True)] \<and>
   classify sn (PStr ''get 50 percent off'') [(cat, [''50% off''])] = Inr [(cat, False)] \<and>
   classify sn (PStr ''version a.b is out'') [(cat, [''a.b''])] = Inr [(cat, True)] \<and>
   classify sn (PStr ''axb'') [(cat, [''a.b''])] = Inr [(cat, False)] \<and>
   classify sn (PStr ''a+b'') [(cat, [''a+b''])] = Inr [(cat, True)] \<and>
   classify sn (PStr ''aab'') [(cat, [''a+b''])] = Inr [(cat, False)] \<and>
   classify sn (PStr ''learn c++ now'') [(cat, [''c++'', ''(new)'', ''[x]'', ''a|b'', ''^$''])] =
     Inr [(cat, False)] \<and>
   sre_parse (word_format (re_escape p)) = Inr (Word_boundary # map Literal p @ [Word_boundary])"
  by (intro conjI classify_literal special_character_texts sre_parse_word_format)

section \<open>Letter case\<close>






section \<open>The validator\<close>

lemma phrase_set_lowercased:
  "phrase_set sn v = Some ps \<Longrightarrow> distinct ps \<and> list_all (\<lambda>p. lower p = p) ps"
  by (auto simp: phrase_set_def list_all_iff lower_idem split: option.splits)

lemma well_shaped_parse_items:
  "list_all (\<lambda>kv. is_str_list (snd kv)) kvs \<Longrightarrow>
     \<exists>d. parse_items sn kvs = Some d \<and>
         list_all2 (\<lambda>kv e. fst e = fst kv \<and> distinct (snd e) \<and>
                      set (snd e) = lower ` set (strings_of (snd kv)) \<and>
                      list_all (\<lambda>p. lower p = p) (snd e)) kvs d"
proof (induction kvs)
  case Nil
  show ?case by simp
next
  case (Cons kv kvs)
  obtain k v where kv: "kv = (k, v)" by (cases kv)
  from Cons.prems kv have v: "is_str_list v" and rest: "list_all (\<lambda>kv. is_str_list (snd kv)) kvs"
    by simp_all
  from Cons.IH [OF rest] obtain d where d: "parse_items sn kvs = Some d"
    and all: "list_all2 (\<lambda>kv e. fst e = fst kv \<and> distinct (snd e) \<and>
                      set (snd e) = lower ` set (strings_of (snd kv)) \<and>
                      list_all (\<lambda>p. lower p = p) (snd e)) kvs d"
    by blast
  have ps: "phrase_set sn v = Some (remdups (map lower (strings_of v)))"
    by (rule phrase_set_str_list [OF v])
  have low: "list_all (\<lambda>p. lower p = p) (remdups (map lower (strings_of v)))"
    using phrase_set_lowercased [OF ps] by simp
  have here: "fst (k, remdups (map lower (strings_of v))) = fst kv \<and>
     distinct (snd (k, remdups (map lower (strings_of v)))) \<and>
     set (snd (k, remdups (map lower (strings_of v)))) = lower ` set (strings_of (snd kv)) \<and>
     list_all (\<lambda>p. lower p = p) (snd (k, remdups (map lower (strings_of v))))"
    using low by (simp add: kv)
  have "parse_items sn (kv # kvs) = Some ((k, remdups (map lower (strings_of v))) # d)"
    by (simp add: kv ps d)
  moreover have "list_all2 (\<lambda>kv e. fst e = fst kv \<and> distinct (snd e) \<and>
                      set (snd e) = lower ` set (strings_of (snd kv)) \<and>
                      list_all (\<lambda>p. lower p = p) (snd e))
                   (kv # kvs) ((k, remdups (map lower (strings_of v))) # d)"
    using here all by (rule list_all2_Cons [THEN iffD2, OF conjI])
  ultimately show ?case by blast
qed

text \<open>
  Against claim C6 as it is stated: the phrase \<open>'' vip ''\<close> of a well-shaped input
  keeps its two spaces.
\<close>

theorem validator_trim_counterexample:
  "well_shaped (Some (PDict [(''promo'', PList [PStr '' VIP ''])]) :: int pyval option) \<and>
   parse_dictionaries str_int (Some (PDict [(''promo'', PList [PStr '' VIP ''])])) =
     Inr [(''promo'', ['' vip ''])] \<and>
   \<not> trimmed '' vip ''"
  by code_simp

text \<open>
  Claim C6, amended. For a well-shaped input the validator returns a dictionary with
  the categories of the input, in which the phrases of a category are the strings of
  its list, lower-cased and otherwise as they are written (whitespace around a phrase
  is kept), each one once.
\<close>

theorem validator_normalization:
  "well_shaped loaded \<Longrightarrow>
     \<exists>kvs d. loaded = Some (PDict kvs) \<and> parse_dictionaries sn loaded = Inr d \<and>
         list_all2 (\<lambda>kv e. fst e = fst kv \<and> distinct (snd e) \<and>
                      set (snd e) = lower ` set (strings_of (snd kv)) \<and>
                      list_all (\<lambda>p. lower p = p) (snd e)) kvs d"
proof -
  assume w: "well_shaped loaded"
  then obtain kvs where l: "loaded = Some (PDict kvs)"
    by (auto elim: well_shaped.elims)
  with w have "list_all (\<lambda>kv. is_str_list (snd kv)) kvs" by simp
  from well_shaped_parse_items [OF this, of sn] obtain d where
    d: "parse_items sn kvs = Some d" and
    a: "list_all2 (\<lambda>kv e. fst e = fst kv \<and> distinct (snd e) \<and>
                      set (snd e) = lower ` set (strings_of (snd kv)) \<and>
                      list_all (\<lambda>p. lower p = p) (snd e)) kvs d"
    by (elim exE conjE)
  have "parse_dictionaries sn loaded = Inr d" by (simp add: l d)
  with l a show ?thesis by (intro exI conjI)
qed

theorem validator_normalization_witness:
  "well_shaped (Some (PDict [(''promo'', PList [PStr ''VIP'', PStr ''vip'', PStr '' Sale'']),
                             (''none'', PList [])]) :: int pyval option) \<and>
   parse_dictionaries str_int
     (Some (PDict [(''promo'', PList [PStr ''VIP'', PStr ''vip'', PStr '' Sale'']),
                   (''none'', PList [])])) =
     Inr [(''promo'', [''vip'', '' sale'']), (''none'', [])]"
proof -
  have h: "well_shaped (Some (PDict [(''promo'', PList [PStr ''VIP'', PStr ''vip'', PStr '' Sale'']),
                             (''none'', PList [])]) :: int pyval option)"
    by simp
  from validator_normalization [OF h, of str_int] obtain d where
    p: "parse_dictionaries str_int
          (Some (PDict [(''promo'', PList [PStr ''VIP'', PStr ''vip'', PStr '' Sale'']),
                        (''none'', PList [])])) = Inr d"
    by (elim exE conjE)
  have e: "parse_dictionaries str_int
     (Some (PDict [(''promo'', PList [PStr ''VIP'', PStr ''vip'', PStr '' Sale'']),
                   (''none'', PList [])])) =
     Inr [(''promo'', [''vip'', '' sale'']), (''none'', [])]"
    by code_simp
  from p e have "d = [(''promo'', [''vip'', '' sale'']), (''none'', [])]" by simp
  with p h show ?thesis by (intro conjI) simp_all
qed

text \<open>
  Against claim C7 as it is stated: an object whose value is a string, not a list of
  strings, is accepted. The string is iterated character by character, and the run
  produces flag sets.
\<close>

theorem malformed_rejection_counterexample:
  "\<not> well_shaped (Some (PDict [(''promo'', PStr ''vip'')]) :: int pyval option) \<and>
   run str_int (Some (PDict [(''promo'', PStr ''vip'')]))
     (Some (Some [(''Statement'', [PStr ''v for victory'', PStr ''vip''])])) ''Statement'' =
     Inr (Some [ [(''promo'', True)], [(''promo'', False)] ])"
  by code_simp

text \<open>
  Claim C7, amended. The validator fails, with the error of an invalid dictionary,
  exactly on the input that is not JSON text, or whose value is not an object, or in
  which the value of some name is \<open>null\<close>, a boolean or a number. The script then stops
  before any record is classified: whatever was uploaded, no flag set is produced. An
  object whose values are lists, strings or objects is accepted.
\<close>

theorem malformed_rejection:
  "(parse_dictionaries sn loaded = Inl Invalid_JSON) = (\<not> accepted loaded) \<and>
   (\<not> accepted loaded \<longrightarrow> run sn loaded uploaded statement_col = Inl Invalid_JSON) \<and>
   (accepted loaded \<longrightarrow> (\<exists>d. parse_dictionaries sn loaded = Inr d))"
proof -
  have a: "(parse_dictionaries sn loaded = Inl Invalid_JSON) = (\<not> accepted loaded)"
  proof (cases loaded)
    case None
    then show ?thesis by simp
  next
    case (Some v)
    show ?thesis
    proof (cases v)
      case (PDict kvs)
      show ?thesis
        using parse_items_None [of sn kvs]
        by (cases "parse_items sn kvs") (simp_all add: Some PDict)
    qed (simp_all add: Some)
  qed
  have b: "run sn loaded uploaded statement_col = Inl Invalid_JSON" if "\<not> accepted loaded"
    using that a by (simp add: run_def)
  have c: "\<exists>d. parse_dictionaries sn loaded = Inr d" if "accepted loaded"
  proof -
    from that obtain kvs where l: "loaded = Some (PDict kvs)"
      by (auto elim: accepted.elims)
    with that have "parse_items sn kvs \<noteq> None" by (simp add: parse_items_None)
    with l show ?thesis by auto
  qed
  from a b c show ?thesis by blast
qed

theorem malformed_rejection_witness:
  "\<not> accepted (Some (PList [PStr ''vip'', PStr ''hurry'']) :: int pyval option) \<and>
   run str_int (Some (PList [PStr ''vip'', PStr ''hurry'']))
     (Some (Some [(''Statement'', [PStr ''a vip event''])])) ''Statement'' = Inl Invalid_JSON \<and>
   \<not> accepted (None :: int pyval option) \<and>
   run str_int None (Some (Some [(''Statement'', [PStr ''a vip event''])])) ''Statement'' =
     Inl Invalid_JSON \<and>
   accepted (Some (PDict [(''promo'', PList [PStr ''vip''])]) :: int pyval option) \<and>
   (\<exists>d. parse_dictionaries str_int (Some (PDict [(''promo'', PList [PStr ''vip''])])) = Inr d)"
proof -
  have h1: "\<not> accepted (Some (PList [PStr ''vip'', PStr ''hurry'']) :: int pyval option)"
    by simp
  have h2: "\<not> accepted (None :: int pyval option)"
    by simp
  have h3: "accepted (Some (PDict [(''promo'', PList [PStr ''vip''])]) :: int pyval option)"
    by simp
  show ?thesis
    using h1 h2 h3
      malformed_rejection [of str_int "Some (PList [PStr ''vip'', PStr ''hurry''])"
        "Some (Some [(''Statement'', [PStr ''a vip event''])])" "''Statement''"]
      malformed_rejection [of str_int None
        "Some (Some [(''Statement'', [PStr ''a vip event''])])" "''Statement''"]
      malformed_rejection [of str_int "Some (PDict [(''promo'', PList [PStr ''vip''])])"
        "Some (Some [(''Statement'', [PStr ''a vip event''])])" "''Statement''"]
    by blast
qed

section \<open>Totality and determinism of the matcher\<close>

lemma coerced_records:
  "classify str_int (PStr []) get_default_dictionaries =
     Inr [(''urgency_marketing'', False), (''exclusive_marketing'', False)]"
  "classify str_int PNone get_default_dictionaries =
     Inr [(''urgency_marketing'', False), (''exclusive_marketing'', False)]"
  "classify str_int (PNum 2024) get_default_dictionaries =
     Inr [(''urgency_marketing'', False), (''exclusive_marketing'', False)]"
  "classify str_int PNone [(''missing'', [''none'', ''n/a''])] = Inr [(''missing'', True)]"
  "classify str_int (PNum 50) [(''promo'', [''50'', ''50% off''])] = Inr [(''promo'', True)]"
  by code_simp+

text \<open>
  Claim C8. For every dictionary and every record, whatever its type, \<open>classify\<close>
  returns a flag set (no pattern it builds is rejected), with one flag for each
  category of the dictionary; a category is flagged exactly when one of its phrases
  matches the lower-cased text of the record. The empty string gets all flags false.
  Under the default dictionaries \<open>None\<close> and the number 2024 get all flags false, and
  \<open>None\<close> is flagged by a dictionary that holds the phrase ``none''.
\<close>

theorem matcher_totality:
  "classify sn r d = Inr (match_flags (lower (py_str sn r)) d) \<and>
   map fst (match_flags (lower (py_str sn r)) d) = map fst d \<and>
   classify sn (PStr []) d = Inr (map (\<lambda>entry. (fst entry, False)) d) \<and>
   classify str_int PNone get_default_dictionaries =
     Inr [(''urgency_marketing'', False), (''exclusive_marketing'', False)] \<and>
   classify str_int (PNum 2024) get_default_dictionaries =
     Inr [(''urgency_marketing'', False), (''exclusive_marketing'', False)] \<and>
   classify str_int PNone [(''missing'', [''none'', ''n/a''])] = Inr [(''missing'', True)]"
proof -
  have a: "classify sn r d = Inr (match_flags (lower (py_str sn r)) d)"
    by (simp add: classify_total match_flags_def)
  have b: "map fst (match_flags (lower (py_str sn r)) d) = map fst d"
    unfolding match_flags_def by (induction d) auto
  have "list_ex (phrase_matches []) ps = False" for ps
    by (simp add: list_ex_iff no_match_in_empty_text)
  then have c: "classify sn (PStr []) d = Inr (map (\<lambda>entry. (fst entry, False)) d)"
    by (simp add: classify_total lower_def case_prod_beta)
  from a b c coerced_records(2,3,4) show ?thesis by (intro conjI)
qed

text \<open>
  Claim C9. The loop over the records always returns, and the flag sets it returns are
  those of \<open>classify\<close>, record by record. They depend on the dictionary and the records
  alone: they are the same whatever the state of the progress bar, the only state the
  loop touches, and whatever the order in which the phrases of each category are
  iterated, the only thing that can differ between two runs on the same dictionary.
\<close>

theorem determinism:
  "same_phrase_sets d d' \<longrightarrow>
     (\<exists>s s'. classify_rows sn d column bar = Inr s \<and>
             classify_rows sn d' column bar' = Inr s' \<and>
             flags s = flags s' \<and>
             list_all2 (\<lambda>r fs. classify sn r d = Inr fs) column (flags s))"
proof
  assume same: "same_phrase_sets d d'"
  let ?f = "\<lambda>d r. map (\<lambda>(cat, ps). (cat, list_ex (phrase_matches (lower (py_str sn r))) ps)) d"
  obtain b where s: "classify_rows sn d column bar = Inr \<lparr>flags = map (?f d) column, my_bar = b\<rparr>"
    using classify_rows_total [of sn d column bar] by blast
  obtain b' where s': "classify_rows sn d' column bar' = Inr \<lparr>flags = map (?f d') column, my_bar = b'\<rparr>"
    using classify_rows_total [of sn d' column bar'] by blast
  have eq: "map (?f d) column = map (?f d') column"
    using same_phrase_sets_flags [OF same] by simp
  have al: "list_all2 (\<lambda>r fs. classify sn r d = Inr fs) column (map (?f d) column)"
    by (simp add: list_all2_map2 classify_total list_all2_same)
  show "\<exists>s s'. classify_rows sn d column bar = Inr s \<and>
             classify_rows sn d' column bar' = Inr s' \<and>
             flags s = flags s' \<and>
             list_all2 (\<lambda>r fs. classify sn r d = Inr fs) column (flags s)"
  proof (intro exI conjI)
    show "classify_rows sn d column bar = Inr \<lparr>flags = map (?f d) column, my_bar = b\<rparr>"
      by (rule s)
    show "classify_rows sn d' column bar' = Inr \<lparr>flags = map (?f d') column, my_bar = b'\<rparr>"
      by (rule s')
    show "flags \<lparr>flags = map (?f d) column, my_bar = b\<rparr> =
          flags \<lparr>flags = map (?f d') column, my_bar = b'\<rparr>"
      unfolding loop_state.select_convs by (rule eq)
    show "list_all2 (\<lambda>r fs. classify sn r d = Inr fs) column
            (flags \<lparr>flags = map (?f d) column, my_bar = b\<rparr>)"
      unfolding loop_state.select_convs by (rule al)
  qed
qed

lemma determinism_example:
  "same_phrase_sets
     [(''urgency_marketing'', [''hurry'', ''limited time'']), (''exclusive_marketing'', [''vip''])]
     [(''urgency_marketing'', [''limited time'', ''hurry'']), (''exclusive_marketing'', [''vip''])]"
  "classify_rows str_int
     [(''urgency_marketing'', [''hurry'', ''limited time'']), (''exclusive_marketing'', [''vip''])]
     [PStr ''Limited time only'', PNum 7] [Percent 0] =
     Inr \<lparr>flags = [ [(''urgency_marketing'', True), (''exclusive_marketing'', False)],
                     [(''urgency_marketing'', False), (''exclusive_marketing'', False)] ],
          my_bar = [Percent 0, Percent 100]\<rparr>"
  "classify_rows str_int
     [(''urgency_marketing'', [''limited time'', ''hurry'']), (''exclusive_marketing'', [''vip''])]
     [PStr ''Limited time only'', PNum 7] [Percent 0, Percent 100, Percent 0] =
     Inr \<lparr>flags = [ [(''urgency_marketing'', True), (''exclusive_marketing'', False)],
                     [(''urgency_marketing'', False), (''exclusive_marketing'', False)] ],
          my_bar = [Percent 0, Percent 100, Percent 0, Percent 100]\<rparr>"
  by code_simp+

theorem determinism_witness:
  "same_phrase_sets
     [(''urgency_marketing'', [''hurry'', ''limited time'']), (''exclusive_marketing'', [''vip''])]
     [(''urgency_marketing'', [''limited time'', ''hurry'']), (''exclusive_marketing'', [''vip''])] \<and>
   flags (projr (classify_rows str_int
     [(''urgency_marketing'', [''hurry'', ''limited time'']), (''exclusive_marketing'', [''vip''])]
     [PStr ''Limited time only'', PNum 7] [Percent 0])) =
   flags (projr (classify_rows str_int
     [(''urgency_marketing'', [''limited time'', ''hurry'']), (''exclusive_marketing'', [''vip''])]
     [PStr ''Limited time only'', PNum 7] [Percent 0, Percent 100, Percent 0])) \<and>
   flags (projr (classify_rows str_int
     [(''urgency_marketing'', [''hurry'', ''limited time'']), (''exclusive_marketing'', [''vip''])]
     [PStr ''Limited time only'', PNum 7] [Percent 0])) =
     [ [(''urgency_marketing'', True), (''exclusive_marketing'', False)],
       [(''urgency_marketing'', False), (''exclusive_marketing'', False)] ]"
proof -
  note h = determinism_example(1)
  from determinism [of
      "[(''urgency_marketing'', [''hurry'', ''limited time'']), (''exclusive_marketing'', [''vip''])]"
      "[(''urgency_marketing'', [''limited time'', ''hurry'']), (''exclusive_marketing'', [''vip''])]"
      str_int "[PStr ''Limited time only'', PNum 7]" "[Percent 0]"
      "[Percent 0, Percent 100, Percent 0]"] h
  obtain s s' where
    "classify_rows str_int
       [(''urgency_marketing'', [''hurry'', ''limited time'']), (''exclusive_marketing'', [''vip''])]
       [PStr ''Limited time only'', PNum 7] [Percent 0] = Inr s"
    "classify_rows str_int
       [(''urgency_marketing'', [''limited time'', ''hurry'']), (''exclusive_marketing'', [''vip''])]
       [PStr ''Limited time only'', PNum 7] [Percent 0, Percent 100, Percent 0] = Inr s'"
    "flags s = flags s'"
    by (elim impE exE conjE)
  then have "flags (projr (classify_rows str_int
     [(''urgency_marketing'', [''hurry'', ''limited time'']), (''exclusive_marketing'', [''vip''])]
     [PStr ''Limited time only'', PNum 7] [Percent 0])) =
   flags (projr (classify_rows str_int
     [(''urgency_marketing'', [''limited time'', ''hurry'']), (''exclusive_marketing'', [''vip''])]
     [PStr ''Limited time only'', PNum 7] [Percent 0, Percent 100, Percent 0]))"
    by simp
  moreover have "flags (projr (classify_rows str_int
     [(''urgency_marketing'', [''hurry'', ''limited time'']), (''exclusive_marketing'', [''vip''])]
     [PStr ''Limited time only'', PNum 7] [Percent 0])) =
     [ [(''urgency_marketing'', True), (''exclusive_marketing'', False)],
       [(''urgency_marketing'', False), (''exclusive_marketing'', False)] ]"
    by (simp add: determinism_example(2))
  ultimately show ?thesis using h by (intro conjI)
qed

section \<open>Empty categories\<close>

text \<open>
  Claim C10. A category with no phrase gets the flag false, for every record.
\<close>

theorem empty_category:
  "map_of d cat = Some [] \<Longrightarrow> lookup_flag (classify sn r d) cat = Some False"
  by (simp add: lookup_flag_classify)

theorem empty_category_witness:
  "map_of [(''urgency_marketing'', [''hurry'']), (''unused'', [])] ''unused'' = Some [] \<and>
   lookup_flag (classify str_int (PStr ''Hurry, unused stock!'')
                  [(''urgency_marketing'', [''hurry'']), (''unused'', [])]) ''unused'' =
     Some False"
proof -
  have h: "map_of [(''urgency_marketing'', [''hurry'']), (''unused'', [])] ''unused'' = Some []"
    by simp
  from h empty_category [OF h, of str_int "PStr ''Hurry, unused stock!''"]
  show ?thesis by (intro conjI)
qed

end
